theory Spec2Isabelle
  imports Main "HOL-Library.AList"
begin

section \<open>Data model\<close>

text \<open>
  A qubit or classical bit is addressed by the name of its register and an index in it.
  A register is a name and a size.
\<close>

type_synonym qubit = "string \<times> nat"
type_synonym clbit = "string \<times> nat"
type_synonym register = "string \<times> nat"

text \<open>
  An instruction carries its name and its widths; the pass never looks at the parameters,
  it only hands the instruction object on.
\<close>

record instruction =
  name :: string
  num_qubits :: nat
  num_clbits :: nat
  params :: "int list"

text \<open>\<^verbatim>\<open>Barrier(n)\<close>: the barrier instruction on \<open>n\<close> qubits.\<close>

definition Barrier :: "nat \<Rightarrow> instruction" where
  "Barrier n = \<lparr>name = ''barrier'', num_qubits = n, num_clbits = 0, params = []\<rparr>"

text \<open>
  What an operation node stores: the instruction, the ordered qubit and classical operand
  lists and the optional classical condition (a register and the value expected in it).
\<close>

record operation =
  op :: instruction
  qargs :: "qubit list"
  cargs :: "clbit list"
  condition :: "(register \<times> nat) option"

text \<open>
  A node as the pass sees it: the stored operation together with the node's stable handle.
  Two nodes of one graph are the same node exactly when their handles agree, so equality of
  these records is node identity, never structural equality of the operations alone.
\<close>

record dagnode = operation +
  node_id :: nat

text \<open>
  Modelled from the spec: the graph store (class \<^verbatim>\<open>DAGCircuit\<close>) is not among the
  sources. A graph holds its quantum and classical registers and its operation nodes in the
  order in which they were appended; the handle of a node is its position in that order.
\<close>

record DAGCircuit =
  qregs :: "register list"
  cregs :: "register list"
  op_nodes :: "operation list"

text \<open>
  Modelled from the spec: the topological iterator. Every edge leads from an earlier
  appended node to a later one, and ties are broken by append order, so the walk is the
  append order itself, each node paired with its handle.
\<close>

definition topological_op_nodes :: "DAGCircuit \<Rightarrow> dagnode list" where
  "topological_op_nodes dag =
     map (\<lambda>(i, x). \<lparr>op = op x, qargs = qargs x, cargs = cargs x, condition = condition x,
                    node_id = i\<rparr>)
         (enumerate 0 (op_nodes dag))"

text \<open>
  Modelled from the spec: a wire is the chain of nodes that have one qubit or classical
  bit among their operands; consecutive nodes of a wire are joined by an edge.
\<close>

datatype wire = QWire qubit | CWire clbit

definition wires :: "operation \<Rightarrow> wire list" where
  "wires x = map QWire (qargs x) @ map CWire (cargs x)"

definition wire_predecessor :: "operation list \<Rightarrow> nat \<Rightarrow> wire \<Rightarrow> nat list" where
  "wire_predecessor xs j w =
     (case find (\<lambda>i. w \<in> set (wires (xs ! i))) (rev [0..<j]) of
        None \<Rightarrow> []
      | Some i \<Rightarrow> [i])"

definition predecessors :: "operation list \<Rightarrow> nat \<Rightarrow> nat list" where
  "predecessors xs j = concat (map (wire_predecessor xs j) (wires (xs ! j)))"

text \<open>
  Modelled from the spec: \<open>reaches xs i j\<close> holds when a directed path of at least one edge
  leads from node \<open>i\<close> to node \<open>j\<close>. The traversal walks the edges backwards from \<open>j\<close>.
\<close>

function reaches :: "operation list \<Rightarrow> nat \<Rightarrow> nat \<Rightarrow> bool" where
  "reaches xs i j =
     (j < length xs \<and> list_ex (\<lambda>p. p = i \<or> reaches xs i p) (predecessors xs j))"
  by pat_completeness auto
termination
proof (relation "measure (\<lambda>(xs, i, j). j)")
  show "wf (measure (\<lambda>(xs, i, j). j))" by simp
next
  fix xs :: "operation list" and i j p :: nat
  assume "p \<in> set (predecessors xs j)"
  then obtain w where "p \<in> set (wire_predecessor xs j w)"
    by (auto simp: predecessors_def)
  then have "find (\<lambda>i. w \<in> set (wires (xs ! i))) (rev [0..<j]) = Some p"
    by (auto simp: wire_predecessor_def split: option.splits)
  then have "p \<in> set (rev [0..<j])"
    by (metis find_Some_iff nth_mem)
  then show "((xs, i, p), (xs, i, j)) \<in> measure (\<lambda>(xs, i, j). j)"
    by simp
qed

declare reaches.simps [simp del]

text \<open>
  Modelled from the spec: the reachability oracle. \<open>ancestors\<close> are the nodes with a
  directed path to the node, \<open>descendants\<close> the nodes reachable from it; neither contains
  the node itself. A Python set is a duplicate-free list here; the order of its elements is
  the order of insertion, which Python leaves open and on which nothing below depends.
\<close>

definition ancestors :: "DAGCircuit \<Rightarrow> dagnode \<Rightarrow> dagnode list" where
  "ancestors dag n =
     filter (\<lambda>m. reaches (op_nodes dag) (node_id m) (node_id n)) (topological_op_nodes dag)"

definition descendants :: "DAGCircuit \<Rightarrow> dagnode \<Rightarrow> dagnode list" where
  "descendants dag n =
     filter (\<lambda>m. reaches (op_nodes dag) (node_id n) (node_id m)) (topological_op_nodes dag)"

subsection \<open>Python sets\<close>

definition pyset :: "'a list \<Rightarrow> 'a list" where
  "pyset xs = remdups xs"

definition isdisjoint :: "'a list \<Rightarrow> 'a list \<Rightarrow> bool" where
  "isdisjoint xs ys = list_all (\<lambda>x. x \<notin> set ys) xs"

definition set_union :: "'a list \<Rightarrow> 'a list \<Rightarrow> 'a list" where
  "set_union xs ys = xs @ filter (\<lambda>y. y \<notin> set xs) ys"

section \<open>The merge-candidate collector\<close>

text \<open>
  Modelled from the spec: the truth value of an instruction object in \<^verbatim>\<open>if barrier_to_add:\<close>.
  The instruction class is not among the sources; the spec closes every group into the
  mapping without a condition, so the object counts as true.
\<close>

definition truthy :: "instruction \<Rightarrow> bool" where
  "truthy i = True"

text \<open>The local variables of \<^verbatim>\<open>_collect_potential_merges\<close> that the loop updates.\<close>

record collector =
  node_to_barrier_qubits :: "(dagnode \<times> qubit list) list"
  end_of_barrier :: dagnode
  current_barrier_nodes :: "dagnode list"
  current_qubits :: "qubit list"
  current_ancestors :: "dagnode list"
  current_descendants :: "dagnode list"
  barrier_to_add :: instruction

text \<open>The state before the loop, seeded with the first barrier.\<close>

definition start_collector :: "DAGCircuit \<Rightarrow> dagnode \<Rightarrow> collector" where
  "start_collector dag current_barrier =
     \<lparr>node_to_barrier_qubits = [],
      end_of_barrier = current_barrier,
      current_barrier_nodes = [current_barrier],
      current_qubits = pyset (qargs current_barrier),
      current_ancestors = ancestors dag current_barrier,
      current_descendants = descendants dag current_barrier,
      barrier_to_add = Barrier (length (pyset (qargs current_barrier)))\<rparr>"

text \<open>The two comprehensions at the head of the loop body, and the test of the \<^verbatim>\<open>if\<close>.\<close>

definition next_ancestors :: "DAGCircuit \<Rightarrow> collector \<Rightarrow> dagnode \<Rightarrow> dagnode list" where
  "next_ancestors dag s next_barrier =
     filter (\<lambda>nd. nd \<notin> set (current_barrier_nodes s)) (ancestors dag next_barrier)"

definition next_descendants :: "DAGCircuit \<Rightarrow> collector \<Rightarrow> dagnode \<Rightarrow> dagnode list" where
  "next_descendants dag s next_barrier =
     filter (\<lambda>nd. nd \<notin> set (current_barrier_nodes s)) (descendants dag next_barrier)"

definition can_merge :: "DAGCircuit \<Rightarrow> collector \<Rightarrow> dagnode \<Rightarrow> bool" where
  "can_merge dag s next_barrier =
     (\<not> isdisjoint (current_qubits s) (pyset (qargs next_barrier))
      \<and> isdisjoint (current_ancestors s) (next_descendants dag s next_barrier)
      \<and> isdisjoint (current_descendants s) (next_ancestors dag s next_barrier))"

text \<open>The \<^verbatim>\<open>if barrier_to_add:\<close> block that stores the group built so far.\<close>

definition store_barrier :: "collector \<Rightarrow> collector" where
  "store_barrier s =
     (if truthy (barrier_to_add s)
      then s\<lparr>node_to_barrier_qubits :=
               AList.update (end_of_barrier s) (current_qubits s) (node_to_barrier_qubits s)\<rparr>
      else s)"

text \<open>One pass through the body of the loop over \<^verbatim>\<open>barriers[1:]\<close>.\<close>

definition merge_step :: "DAGCircuit \<Rightarrow> dagnode \<Rightarrow> collector \<Rightarrow> collector" where
  "merge_step dag next_barrier s =
     (let s' =
        (if can_merge dag s next_barrier
         then
           (let qubits = set_union (current_qubits s) (pyset (qargs next_barrier)) in
            s\<lparr>current_ancestors :=
                 set_union (current_ancestors s) (next_ancestors dag s next_barrier),
               current_descendants :=
                 set_union (current_descendants s) (next_descendants dag s next_barrier),
               current_qubits := qubits,
               barrier_to_add := Barrier (length qubits)\<rparr>)
         else
           (store_barrier s)
             \<lparr>current_qubits := pyset (qargs next_barrier),
              current_ancestors := ancestors dag next_barrier,
              current_descendants := descendants dag next_barrier,
              barrier_to_add := Barrier (length (pyset (qargs next_barrier))),
              current_barrier_nodes := []\<rparr>)
      in s'\<lparr>end_of_barrier := next_barrier,
            current_barrier_nodes := current_barrier_nodes s' @ [next_barrier]\<rparr>)"

text \<open>
  \<^verbatim>\<open>_collect_potential_merges\<close>: \<open>None\<close> is Python's \<^verbatim>\<open>None\<close>, returned for fewer than two
  barriers; otherwise the dictionary, as an association list keyed by node.
\<close>

definition collect_potential_merges ::
  "DAGCircuit \<Rightarrow> dagnode list \<Rightarrow> (dagnode \<times> qubit list) list option" where
  "collect_potential_merges dag barriers =
     (case barriers of
        [] \<Rightarrow> None
      | [b] \<Rightarrow> None
      | current_barrier # rest \<Rightarrow>
          Some (node_to_barrier_qubits
                  (store_barrier (fold (merge_step dag) rest (start_collector dag current_barrier)))))"

section \<open>The pass\<close>

text \<open>
  Graph objects live in a store; a reference to a graph is its address there. A method
  that changes a graph changes the object at its address and nothing else.
\<close>

type_synonym heap = "DAGCircuit list"

text \<open>Modelled from the spec: the constructor and the appending methods of the graph store.\<close>

definition new_DAGCircuit :: "heap \<Rightarrow> nat \<times> heap" where
  "new_DAGCircuit h = (length h, h @ [\<lparr>qregs = [], cregs = [], op_nodes = []\<rparr>])"

definition add_qreg :: "nat \<Rightarrow> register \<Rightarrow> heap \<Rightarrow> heap" where
  "add_qreg a qreg h = h[a := (h ! a)\<lparr>qregs := qregs (h ! a) @ [qreg]\<rparr>]"

definition add_creg :: "nat \<Rightarrow> register \<Rightarrow> heap \<Rightarrow> heap" where
  "add_creg a creg h = h[a := (h ! a)\<lparr>cregs := cregs (h ! a) @ [creg]\<rparr>]"

definition apply_operation_back ::
  "nat \<Rightarrow> instruction \<Rightarrow> qubit list \<Rightarrow> clbit list \<Rightarrow> (register \<times> nat) option \<Rightarrow> heap \<Rightarrow> heap" where
  "apply_operation_back a i qs cs c h =
     h[a := (h ! a)\<lparr>op_nodes := op_nodes (h ! a)
                       @ [\<lparr>op = i, qargs = qs, cargs = cs, condition = c\<rparr>]\<rparr>]"

text \<open>The body of the loop of \<^verbatim>\<open>run\<close> that fills the new graph.\<close>

definition rewrite_node ::
  "(dagnode \<times> qubit list) list \<Rightarrow> nat \<Rightarrow> dagnode \<Rightarrow> heap \<Rightarrow> heap" where
  "rewrite_node node_to_qubits new_dag node h =
     (if name (op node) = ''barrier''
      then
        (case map_of node_to_qubits node of
           Some qubits \<Rightarrow> apply_operation_back new_dag (Barrier (length qubits)) qubits [] None h
         | None \<Rightarrow> h)
      else
        (if condition node \<noteq> None
         then apply_operation_back new_dag (op node) (qargs node) (cargs node) (condition node) h
         else apply_operation_back new_dag (op node) (qargs node) (cargs node) None h))"

text \<open>The barriers of a graph in topological order, as \<^verbatim>\<open>run\<close> selects them.\<close>

definition barriers_of :: "DAGCircuit \<Rightarrow> dagnode list" where
  "barriers_of dag = filter (\<lambda>nd. name (op nd) = ''barrier'') (topological_op_nodes dag)"

text \<open>
  \<^verbatim>\<open>run\<close>: takes the address of the input graph and the store, returns the address of the
  result and the store after the call. \<^verbatim>\<open>not node_to_barrier_qubits\<close> holds for \<^verbatim>\<open>None\<close> and
  for the empty dictionary.
\<close>

definition run :: "nat \<Rightarrow> heap \<Rightarrow> nat \<times> heap" where
  "run dag h =
     (case collect_potential_merges (h ! dag) (barriers_of (h ! dag)) of
        None \<Rightarrow> (dag, h)
      | Some [] \<Rightarrow> (dag, h)
      | Some node_to_qubits \<Rightarrow>
          (let (new_dag, h1) = new_DAGCircuit h;
               h2 = fold (add_qreg new_dag) (qregs (h1 ! dag)) h1;
               h3 = fold (add_creg new_dag) (cregs (h2 ! dag)) h2;
               h4 = fold (rewrite_node node_to_qubits new_dag) (topological_op_nodes (h3 ! dag)) h3
           in (new_dag, h4)))"

text \<open>
  The graph that \<^verbatim>\<open>run\<close> returns when it is called on a store that holds the input graph
  alone.
\<close>

definition transform :: "DAGCircuit \<Rightarrow> DAGCircuit" where
  "transform dag = snd (run 0 [dag]) ! fst (run 0 [dag])"

section \<open>Observing the collector and the rewriter\<close>

text \<open>
  The states of the collector at the moments it stores a group into the dictionary: in the
  \<^verbatim>\<open>else\<close> branch of the loop, before the reset, and after the loop. In such a state
  \<open>current_barrier_nodes\<close> holds the members of the group, \<open>end_of_barrier\<close> its anchor and
  \<open>current_qubits\<close> its qubits.
\<close>

fun closings :: "DAGCircuit \<Rightarrow> collector \<Rightarrow> dagnode list \<Rightarrow> collector list" where
  "closings dag s [] = [s]"
| "closings dag s (b # bs) =
     (if can_merge dag s b then [] else [s]) @ closings dag (merge_step dag b s) bs"

definition merge_groups :: "DAGCircuit \<Rightarrow> collector list" where
  "merge_groups dag =
     (case barriers_of dag of
        [] \<Rightarrow> []
      | [b] \<Rightarrow> []
      | current_barrier # rest \<Rightarrow> closings dag (start_collector dag current_barrier) rest)"

text \<open>What the body of the rewriting loop appends to an empty new graph for one node.\<close>

definition node_output :: "(dagnode \<times> qubit list) list \<Rightarrow> dagnode \<Rightarrow> operation list" where
  "node_output node_to_qubits node =
     op_nodes (rewrite_node node_to_qubits 0 node [\<lparr>qregs = [], cregs = [], op_nodes = []\<rparr>] ! 0)"

section \<open>Example circuits\<close>

definition barrier_on :: "qubit list \<Rightarrow> operation" where
  "barrier_on qs = \<lparr>op = Barrier (length qs), qargs = qs, cargs = [], condition = None\<rparr>"

definition gate_on :: "qubit \<Rightarrow> operation" where
  "gate_on q =
     \<lparr>op = \<lparr>name = ''h'', num_qubits = 1, num_clbits = 0, params = []\<rparr>,
      qargs = [q], cargs = [], condition = None\<rparr>"

definition circuit :: "nat \<Rightarrow> operation list \<Rightarrow> DAGCircuit" where
  "circuit n xs = \<lparr>qregs = [(''q'', n)], cregs = [], op_nodes = xs\<rparr>"

text \<open>The node at a position of the topological walk.\<close>

definition nth_node :: "DAGCircuit \<Rightarrow> nat \<Rightarrow> dagnode" where
  "nth_node dag i = topological_op_nodes dag ! i"

text \<open>\<^verbatim>\<open>barrier(q0)\<close>\<close>

definition one_barrier :: DAGCircuit where
  "one_barrier = circuit 1 [barrier_on [(''q'', 0)]]"

text \<open>\<^verbatim>\<open>barrier(q0); barrier(q0)\<close>\<close>

definition two_barriers :: DAGCircuit where
  "two_barriers = circuit 1 [barrier_on [(''q'', 0)], barrier_on [(''q'', 0)]]"

text \<open>\<^verbatim>\<open>barrier(q0); h(q0); barrier(q0)\<close>\<close>

definition barrier_gate_barrier :: DAGCircuit where
  "barrier_gate_barrier =
     circuit 1 [barrier_on [(''q'', 0)], gate_on (''q'', 0), barrier_on [(''q'', 0)]]"

text \<open>The circuit of the module's docstring: \<^verbatim>\<open>barrier(q0); barrier(q1); barrier(q0, q1, q2)\<close>\<close>

definition docstring_circuit :: DAGCircuit where
  "docstring_circuit =
     circuit 3 [barrier_on [(''q'', 0)], barrier_on [(''q'', 1)],
                barrier_on [(''q'', 0), (''q'', 1), (''q'', 2)]]"

text \<open>\<^verbatim>\<open>barrier(q0); h(q1); barrier(q0)\<close>\<close>

definition barrier_other_gate_barrier :: DAGCircuit where
  "barrier_other_gate_barrier =
     circuit 2 [barrier_on [(''q'', 0)], gate_on (''q'', 1), barrier_on [(''q'', 0)]]"

text \<open>The second group that the collector closes on the circuit of the docstring.\<close>

definition docstring_group :: collector where
  "docstring_group = merge_groups docstring_circuit ! 1"

text \<open>An operation that is a barrier, by the name of its instruction.\<close>

definition is_barrier :: "operation \<Rightarrow> bool" where
  "is_barrier x \<longleftrightarrow> name (op x) = ''barrier''"

section \<open>Invariants of the collector\<close>

text \<open>Handles grow strictly along a list of nodes.\<close>

definition increasing :: "dagnode list \<Rightarrow> bool" where
  "increasing bs = sorted_wrt (\<lambda>a b. node_id a < node_id b) bs"

text \<open>
  What holds of the collector's variables between two passes through the loop body: the
  list of members is not empty, ends with the anchor and is in topological order; the
  qubit set is the union of the members' qubits; every collected ancestor lies before the
  anchor and none of them is a member.
\<close>

definition group_inv :: "collector \<Rightarrow> bool" where
  "group_inv s \<longleftrightarrow>
     current_barrier_nodes s \<noteq> []
     \<and> last (current_barrier_nodes s) = end_of_barrier s
     \<and> sorted_wrt (\<lambda>a b. node_id a < node_id b) (current_barrier_nodes s)
     \<and> set (current_qubits s) = (\<Union>m \<in> set (current_barrier_nodes s). set (qargs m))
     \<and> distinct (current_qubits s)
     \<and> (\<forall>a \<in> set (current_ancestors s). node_id a < node_id (end_of_barrier s))
     \<and> set (current_ancestors s) \<inter> set (current_barrier_nodes s) = {}"

section \<open>Basic facts\<close>

lemma set_pyset: "set (pyset xs) = set xs"
  by (simp add: pyset_def)

lemma distinct_pyset: "distinct (pyset xs)"
  by (simp add: pyset_def)

lemma set_set_union: "set (set_union xs ys) = set xs \<union> set ys"
  by (auto simp: set_union_def)

lemma distinct_set_union: "distinct xs \<Longrightarrow> distinct ys \<Longrightarrow> distinct (set_union xs ys)"
  by (auto simp: set_union_def)

lemma isdisjoint_iff: "isdisjoint xs ys \<longleftrightarrow> set xs \<inter> set ys = {}"
  by (auto simp: isdisjoint_def list_all_iff)

lemma length_topological_op_nodes:
  "length (topological_op_nodes dag) = length (op_nodes dag)"
  by (simp add: topological_op_nodes_def)

lemma nth_topological_op_nodes:
  "i < length (op_nodes dag) \<Longrightarrow>
   topological_op_nodes dag ! i =
     \<lparr>op = op (op_nodes dag ! i), qargs = qargs (op_nodes dag ! i),
      cargs = cargs (op_nodes dag ! i), condition = condition (op_nodes dag ! i),
      node_id = i\<rparr>"
  by (simp add: topological_op_nodes_def nth_enumerate_eq)

lemma node_id_topological_op_nodes:
  "map node_id (topological_op_nodes dag) = [0..<length (op_nodes dag)]"
  by (rule nth_equalityI)
     (simp_all add: length_topological_op_nodes nth_topological_op_nodes)

lemma in_topological_op_nodes:
  "nd \<in> set (topological_op_nodes dag) \<Longrightarrow>
   node_id nd < length (op_nodes dag) \<and> topological_op_nodes dag ! node_id nd = nd"
  by (auto simp: in_set_conv_nth length_topological_op_nodes nth_topological_op_nodes)

lemma truncate_topological_op_nodes:
  "map operation.truncate (topological_op_nodes dag) = op_nodes dag"
  by (rule nth_equalityI)
     (simp_all add: length_topological_op_nodes nth_topological_op_nodes operation.truncate_def)

lemma sorted_topological_op_nodes:
  "sorted_wrt (\<lambda>a b. node_id a < node_id b) (topological_op_nodes dag)"
proof -
  have "sorted_wrt (<) (map node_id (topological_op_nodes dag))"
    by (simp add: node_id_topological_op_nodes)
  then show ?thesis
    by (simp add: sorted_wrt_map)
qed

lemma sorted_barriers_of:
  "sorted_wrt (\<lambda>a b. node_id a < node_id b) (barriers_of dag)"
  unfolding barriers_of_def by (rule sorted_wrt_filter) (rule sorted_topological_op_nodes)

lemma predecessors_less: "p \<in> set (predecessors xs j) \<Longrightarrow> p < j"
proof -
  assume "p \<in> set (predecessors xs j)"
  then obtain w where "p \<in> set (wire_predecessor xs j w)"
    by (auto simp: predecessors_def)
  then have "find (\<lambda>i. w \<in> set (wires (xs ! i))) (rev [0..<j]) = Some p"
    by (auto simp: wire_predecessor_def split: option.splits)
  then have "p \<in> set (rev [0..<j])"
    by (metis find_Some_iff nth_mem)
  then show "p < j" by simp
qed

lemma reaches_less: "reaches xs i j \<Longrightarrow> i < j"
proof (induction j rule: less_induct)
  case (less j)
  from less.prems obtain p where p: "p \<in> set (predecessors xs j)" "p = i \<or> reaches xs i p"
    by (subst (asm) reaches.simps) (auto simp: list_ex_iff)
  then have "p < j" by (simp add: predecessors_less)
  with p less.IH show ?case by (auto intro: less_trans)
qed

lemma ancestors_less: "m \<in> set (ancestors dag n) \<Longrightarrow> node_id m < node_id n"
  by (auto simp: ancestors_def dest: reaches_less)

lemma descendants_greater: "m \<in> set (descendants dag n) \<Longrightarrow> node_id n < node_id m"
  by (auto simp: descendants_def dest: reaches_less)

section \<open>The loop body and its invariant\<close>

lemma truthy_simp: "truthy i"
  by (simp add: truthy_def)

lemma merge_step_absorb:
  assumes "can_merge dag s b"
  shows "merge_step dag b s =
    s\<lparr>current_ancestors := set_union (current_ancestors s) (next_ancestors dag s b),
      current_descendants := set_union (current_descendants s) (next_descendants dag s b),
      current_qubits := set_union (current_qubits s) (pyset (qargs b)),
      barrier_to_add := Barrier (length (set_union (current_qubits s) (pyset (qargs b)))),
      end_of_barrier := b,
      current_barrier_nodes := current_barrier_nodes s @ [b]\<rparr>"
  using assms by (simp add: merge_step_def Let_def)

lemma merge_step_close:
  assumes "\<not> can_merge dag s b"
  shows "merge_step dag b s =
    \<lparr>node_to_barrier_qubits =
       AList.update (end_of_barrier s) (current_qubits s) (node_to_barrier_qubits s),
     end_of_barrier = b,
     current_barrier_nodes = [b],
     current_qubits = pyset (qargs b),
     current_ancestors = ancestors dag b,
     current_descendants = descendants dag b,
     barrier_to_add = Barrier (length (pyset (qargs b)))\<rparr>"
  using assms by (simp add: merge_step_def Let_def store_barrier_def truthy_def)

lemma end_of_barrier_merge_step: "end_of_barrier (merge_step dag b s) = b"
  by (simp add: merge_step_def Let_def)

lemma can_merge_iff:
  "can_merge dag s b \<longleftrightarrow>
     set (current_qubits s) \<inter> set (qargs b) \<noteq> {}
     \<and> set (current_ancestors s) \<inter> (set (descendants dag b) - set (current_barrier_nodes s)) = {}
     \<and> set (current_descendants s) \<inter> (set (ancestors dag b) - set (current_barrier_nodes s)) = {}"
  by (auto simp: can_merge_def isdisjoint_iff set_pyset next_ancestors_def next_descendants_def)

lemma group_inv_start: "group_inv (start_collector dag b)"
  by (auto simp: group_inv_def start_collector_def set_pyset distinct_pyset
           dest: ancestors_less)

lemma group_inv_members_le:
  assumes "group_inv s" "m \<in> set (current_barrier_nodes s)"
  shows "node_id m \<le> node_id (end_of_barrier s)"
proof -
  from assms(1) have ne: "current_barrier_nodes s \<noteq> []"
    and l: "last (current_barrier_nodes s) = end_of_barrier s"
    and srt: "sorted_wrt (\<lambda>a b. node_id a < node_id b) (current_barrier_nodes s)"
    by (simp_all add: group_inv_def)
  from ne obtain ys where ys: "current_barrier_nodes s = ys @ [end_of_barrier s]"
    using l by (metis append_butlast_last_id)
  with srt assms(2) show ?thesis
    by (auto simp: sorted_wrt_append)
qed

lemma group_inv_merge_step:
  assumes inv: "group_inv s" and lt: "node_id (end_of_barrier s) < node_id b"
  shows "group_inv (merge_step dag b s)"
proof (cases "can_merge dag s b")
  case False
  then show ?thesis
    by (auto simp: merge_step_close group_inv_def set_pyset distinct_pyset
             dest: ancestors_less)
next
  case True
  have le: "\<And>m. m \<in> set (current_barrier_nodes s) \<Longrightarrow> node_id m < node_id b"
    using group_inv_members_le [OF inv] lt by fastforce
  have anc: "\<And>a. a \<in> set (current_ancestors s) \<Longrightarrow> node_id a < node_id b"
    using inv lt by (fastforce simp: group_inv_def)
  have 1: "current_barrier_nodes s @ [b] \<noteq> []" by simp
  have 3: "sorted_wrt (\<lambda>a b. node_id a < node_id b) (current_barrier_nodes s @ [b])"
    using inv le by (simp add: group_inv_def sorted_wrt_append)
  have 4: "set (set_union (current_qubits s) (pyset (qargs b)))
             = (\<Union>m \<in> set (current_barrier_nodes s @ [b]). set (qargs m))"
    using inv by (auto simp: group_inv_def set_set_union set_pyset)
  have 5: "distinct (set_union (current_qubits s) (pyset (qargs b)))"
    using inv by (simp add: group_inv_def distinct_set_union distinct_pyset)
  have 6: "\<forall>a \<in> set (set_union (current_ancestors s) (next_ancestors dag s b)).
             node_id a < node_id b"
    using anc by (auto simp: set_set_union next_ancestors_def dest: ancestors_less)
  have 7: "set (set_union (current_ancestors s) (next_ancestors dag s b))
             \<inter> set (current_barrier_nodes s @ [b]) = {}"
  proof -
    have "b \<notin> set (set_union (current_ancestors s) (next_ancestors dag s b))"
      using 6 by fastforce
    moreover have "set (current_ancestors s) \<inter> set (current_barrier_nodes s) = {}"
      using inv by (simp add: group_inv_def)
    ultimately show ?thesis
      by (auto simp: set_set_union next_ancestors_def)
  qed
  show ?thesis
    unfolding group_inv_def merge_step_absorb [OF True]
    using 1 3 4 5 6 7 by simp
qed

lemma closings_inv:
  "group_inv s \<Longrightarrow> increasing (end_of_barrier s # bs) \<Longrightarrow> g \<in> set (closings dag s bs) \<Longrightarrow> group_inv g"
proof (induction bs arbitrary: s)
  case Nil
  then show ?case by simp
next
  case (Cons b bs)
  from Cons.prems(2) have lt: "node_id (end_of_barrier s) < node_id b"
    and inc: "increasing (b # bs)"
    by (simp_all add: increasing_def)
  have inv': "group_inv (merge_step dag b s)"
    using Cons.prems(1) lt by (rule group_inv_merge_step)
  have inc': "increasing (end_of_barrier (merge_step dag b s) # bs)"
    using inc by (simp add: end_of_barrier_merge_step)
  from Cons.prems(3) consider "g = s" | "g \<in> set (closings dag (merge_step dag b s) bs)"
    by (auto split: if_splits)
  then show ?case
  proof cases
    case 1
    with Cons.prems(1) show ?thesis by simp
  next
    case 2
    with Cons.IH [OF inv' inc'] show ?thesis by simp
  qed
qed

lemma map_of_store_barrier:
  "map_of (node_to_barrier_qubits (store_barrier s)) =
     (map_of (node_to_barrier_qubits s))(end_of_barrier s \<mapsto> current_qubits s)"
  by (simp add: store_barrier_def truthy_def update_conv')

lemma map_of_other_key:
  "k \<noteq> end_of_barrier s \<Longrightarrow> k \<notin> set bs \<Longrightarrow>
   map_of (node_to_barrier_qubits (store_barrier (fold (merge_step dag) bs s))) k
     = map_of (node_to_barrier_qubits s) k"
proof (induction bs arbitrary: s)
  case Nil
  then show ?case by (simp add: map_of_store_barrier)
next
  case (Cons b bs)
  have "map_of (node_to_barrier_qubits (store_barrier (fold (merge_step dag) bs (merge_step dag b s)))) k
          = map_of (node_to_barrier_qubits (merge_step dag b s)) k"
    using Cons.prems by (intro Cons.IH) (simp_all add: end_of_barrier_merge_step)
  also have "\<dots> = map_of (node_to_barrier_qubits s) k"
    using Cons.prems(1)
    by (cases "can_merge dag s b") (simp_all add: merge_step_absorb merge_step_close update_conv')
  finally show ?case by simp
qed

lemma map_of_closings:
  "increasing (end_of_barrier s # bs) \<Longrightarrow> g \<in> set (closings dag s bs) \<Longrightarrow>
   map_of (node_to_barrier_qubits (store_barrier (fold (merge_step dag) bs s))) (end_of_barrier g)
     = Some (current_qubits g)"
proof (induction bs arbitrary: s)
  case Nil
  then show ?case by (simp add: map_of_store_barrier)
next
  case (Cons b bs)
  from Cons.prems(1) have inc: "increasing (b # bs)"
    and notin: "end_of_barrier s \<notin> set (b # bs)"
    by (auto simp: increasing_def)
  have inc': "increasing (end_of_barrier (merge_step dag b s) # bs)"
    using inc by (simp add: end_of_barrier_merge_step)
  from Cons.prems(2) consider (here) "g = s" "\<not> can_merge dag s b"
    | (later) "g \<in> set (closings dag (merge_step dag b s) bs)"
    by (auto split: if_splits)
  then show ?case
  proof cases
    case here
    have "end_of_barrier s \<noteq> end_of_barrier (merge_step dag b s)" "end_of_barrier s \<notin> set bs"
      using notin by (auto simp: end_of_barrier_merge_step)
    then have "map_of (node_to_barrier_qubits (store_barrier (fold (merge_step dag) bs (merge_step dag b s))))
                 (end_of_barrier s)
               = map_of (node_to_barrier_qubits (merge_step dag b s)) (end_of_barrier s)"
      by (rule map_of_other_key)
    also have "\<dots> = Some (current_qubits s)"
      using here(2) by (simp add: merge_step_close update_conv')
    finally show ?thesis using here(1) by simp
  next
    case later
    with Cons.IH [OF inc'] show ?thesis by simp
  qed
qed

lemma group_inv_fold:
  "group_inv s \<Longrightarrow> increasing (end_of_barrier s # bs) \<Longrightarrow> group_inv (fold (merge_step dag) bs s)"
proof (induction bs arbitrary: s)
  case Nil
  then show ?case by simp
next
  case (Cons b bs)
  from Cons.prems(2) have lt: "node_id (end_of_barrier s) < node_id b"
    and inc: "increasing (b # bs)"
    by (simp_all add: increasing_def)
  have "group_inv (merge_step dag b s)"
    using Cons.prems(1) lt by (rule group_inv_merge_step)
  moreover have "increasing (end_of_barrier (merge_step dag b s) # bs)"
    using inc by (simp add: end_of_barrier_merge_step)
  ultimately have "group_inv (fold (merge_step dag) bs (merge_step dag b s))"
    by (rule Cons.IH)
  then show ?case by simp
qed

lemma increasing_barriers_of: "increasing (barriers_of dag)"
  by (simp add: increasing_def sorted_barriers_of)

lemma increasing_take: "increasing (b # bs) \<Longrightarrow> increasing (b # take k bs)"
proof -
  assume "increasing (b # bs)"
  then have "sorted_wrt (\<lambda>a b. node_id a < node_id b) (take (Suc k) (b # bs))"
    unfolding increasing_def by (rule sorted_wrt_take)
  then show ?thesis by (simp add: increasing_def)
qed

lemma group_inv_prefix:
  assumes "barriers_of dag = b0 # rest"
  shows "group_inv (fold (merge_step dag) (take k rest) (start_collector dag b0))"
proof -
  have "increasing (b0 # rest)"
    using increasing_barriers_of [of dag] assms by simp
  then have "increasing (b0 # take k rest)"
    by (rule increasing_take)
  then have "increasing (end_of_barrier (start_collector dag b0) # take k rest)"
    by (simp add: start_collector_def)
  with group_inv_start show ?thesis
    by (rule group_inv_fold)
qed

section \<open>The store and the rewriter\<close>

lemma node_output_eq:
  "node_output m nd =
     (if name (op nd) = ''barrier''
      then (case map_of m nd of
              Some qs \<Rightarrow> [\<lparr>op = Barrier (length qs), qargs = qs, cargs = [], condition = None\<rparr>]
            | None \<Rightarrow> [])
      else [\<lparr>op = op nd, qargs = qargs nd, cargs = cargs nd, condition = condition nd\<rparr>])"
  by (cases "condition nd")
     (simp_all add: node_output_def rewrite_node_def apply_operation_back_def split: option.splits)

lemma rewrite_node_eq:
  "n < length h \<Longrightarrow>
   rewrite_node m n nd h = h[n := (h ! n)\<lparr>op_nodes := op_nodes (h ! n) @ node_output m nd\<rparr>]"
  by (cases "condition nd")
     (simp_all add: node_output_eq rewrite_node_def apply_operation_back_def split: option.splits)

lemma fold_rewrite_node:
  "n < length h \<Longrightarrow>
   fold (rewrite_node m n) nds h =
     h[n := (h ! n)\<lparr>op_nodes := op_nodes (h ! n) @ concat (map (node_output m) nds)\<rparr>]"
proof (induction nds arbitrary: h)
  case Nil
  then show ?case by simp
next
  case (Cons nd nds)
  then show ?case by (simp add: rewrite_node_eq)
qed

lemma fold_add_qreg:
  "n < length h \<Longrightarrow>
   fold (add_qreg n) rs h = h[n := (h ! n)\<lparr>qregs := qregs (h ! n) @ rs\<rparr>]"
proof (induction rs arbitrary: h)
  case Nil
  then show ?case by simp
next
  case (Cons r rs)
  then show ?case by (simp add: add_qreg_def)
qed

lemma fold_add_creg:
  "n < length h \<Longrightarrow>
   fold (add_creg n) rs h = h[n := (h ! n)\<lparr>cregs := cregs (h ! n) @ rs\<rparr>]"
proof (induction rs arbitrary: h)
  case Nil
  then show ?case by simp
next
  case (Cons r rs)
  then show ?case by (simp add: add_creg_def)
qed

lemma run_same:
  "collect_potential_merges (h ! dag) (barriers_of (h ! dag)) = None
   \<or> collect_potential_merges (h ! dag) (barriers_of (h ! dag)) = Some [] \<Longrightarrow>
   run dag h = (dag, h)"
  by (auto simp: run_def)

lemma run_new:
  assumes "collect_potential_merges (h ! dag) (barriers_of (h ! dag)) = Some m"
    and "m \<noteq> []" and "dag < length h"
  shows "run dag h =
    (length h,
     h @ [\<lparr>qregs = qregs (h ! dag), cregs = cregs (h ! dag),
           op_nodes = concat (map (node_output m) (topological_op_nodes (h ! dag)))\<rparr>])"
proof -
  obtain e es where m: "m = e # es"
    using assms(2) by (cases m) auto
  show ?thesis
    using assms(1,3) unfolding m run_def
    by (simp add: new_DAGCircuit_def fold_add_qreg fold_add_creg fold_rewrite_node nth_append)
qed

lemma filter_node_output:
  "filter (\<lambda>x. \<not> is_barrier x) (node_output m nd)
     = filter (\<lambda>x. \<not> is_barrier x) [operation.truncate nd]"
  by (simp add: node_output_eq is_barrier_def operation.truncate_def Barrier_def
           split: option.splits)

lemma filter_concat_node_output:
  "filter (\<lambda>x. \<not> is_barrier x) (concat (map (node_output m) nds))
     = filter (\<lambda>x. \<not> is_barrier x) (map operation.truncate nds)"
proof (induction nds)
  case Nil
  then show ?case by simp
next
  case (Cons nd nds)
  have "filter (\<lambda>x. \<not> is_barrier x) (concat (map (node_output m) (nd # nds)))
          = filter (\<lambda>x. \<not> is_barrier x) (node_output m nd)
            @ filter (\<lambda>x. \<not> is_barrier x) (concat (map (node_output m) nds))"
    by simp
  also have "\<dots> = filter (\<lambda>x. \<not> is_barrier x) [operation.truncate nd]
            @ filter (\<lambda>x. \<not> is_barrier x) (map operation.truncate nds)"
    by (simp only: filter_node_output Cons.IH)
  finally show ?case by simp
qed

lemma non_barriers_rewritten:
  "filter (\<lambda>x. \<not> is_barrier x) (concat (map (node_output m) (topological_op_nodes d)))
     = filter (\<lambda>x. \<not> is_barrier x) (op_nodes d)"
  by (simp only: filter_concat_node_output truncate_topological_op_nodes)

lemma collect_cases:
  obtains (none) "length (barriers_of d) < 2" "collect_potential_merges d (barriers_of d) = None"
  | (some) m where "2 \<le> length (barriers_of d)" "collect_potential_merges d (barriers_of d) = Some m"
      "m \<noteq> []"
proof (cases "barriers_of d")
  case Nil
  then show ?thesis by (intro none) (simp_all add: collect_potential_merges_def)
next
  case (Cons b bs)
  show ?thesis
  proof (cases bs)
    case Nil
    with Cons show ?thesis by (intro none) (simp_all add: collect_potential_merges_def)
  next
    case (Cons b' bs')
    let ?s = "fold (merge_step d) bs (start_collector d b)"
    have "2 \<le> length (barriers_of d)"
      using \<open>barriers_of d = b # bs\<close> Cons by simp
    moreover have "collect_potential_merges d (barriers_of d)
            = Some (node_to_barrier_qubits (store_barrier ?s))"
      using \<open>barriers_of d = b # bs\<close> Cons by (simp add: collect_potential_merges_def)
    moreover have "node_to_barrier_qubits (store_barrier ?s) \<noteq> []"
      by (cases "node_to_barrier_qubits ?s") (simp_all add: store_barrier_def truthy_def)
    ultimately show ?thesis by (rule some)
  qed
qed

lemma transform_same:
  "collect_potential_merges d (barriers_of d) = None \<Longrightarrow> transform d = d"
  by (simp add: transform_def run_def)

lemma transform_new:
  assumes "collect_potential_merges d (barriers_of d) = Some m" "m \<noteq> []"
  shows "transform d =
    \<lparr>qregs = qregs d, cregs = cregs d,
     op_nodes = concat (map (node_output m) (topological_op_nodes d))\<rparr>"
proof -
  have "run 0 [d] =
    (length [d],
     [d] @ [\<lparr>qregs = qregs ([d] ! 0), cregs = cregs ([d] ! 0),
           op_nodes = concat (map (node_output m) (topological_op_nodes ([d] ! 0)))\<rparr>])"
    by (rule run_new) (use assms in simp_all)
  then show ?thesis by (simp add: transform_def)
qed

lemma end_of_barrier_fold:
  "end_of_barrier (fold (merge_step dag) bs s) = last (end_of_barrier s # bs)"
proof (induction bs arbitrary: s)
  case Nil
  then show ?case by simp
next
  case (Cons b bs)
  then show ?case by (simp add: end_of_barrier_merge_step)
qed

lemma last_barrier_is_key:
  assumes "2 \<le> length (barriers_of d)"
    and "collect_potential_merges d (barriers_of d) = Some m"
  shows "map_of m (last (barriers_of d)) \<noteq> None"
proof -
  from assms(1) obtain b b' bs where bs: "barriers_of d = b # b' # bs"
    by (cases "barriers_of d" rule: list.exhaust [case_product list.exhaust])
       (auto simp: neq_Nil_conv Suc_le_eq)
  let ?s = "fold (merge_step d) (b' # bs) (start_collector d b)"
  from assms(2) bs have m: "m = node_to_barrier_qubits (store_barrier ?s)"
    by (simp add: collect_potential_merges_def)
  have "end_of_barrier ?s = last (barriers_of d)"
    unfolding end_of_barrier_fold bs by (simp add: start_collector_def)
  then show ?thesis
    unfolding m map_of_store_barrier by simp
qed

section \<open>The groups the collector closes\<close>

lemma closings_members:
  "g \<in> set (closings dag s bs) \<Longrightarrow>
   set (current_barrier_nodes g) \<subseteq> set (current_barrier_nodes s) \<union> set bs"
proof (induction bs arbitrary: s)
  case Nil
  then show ?case by simp
next
  case (Cons b bs)
  from Cons.prems consider "g = s" | "g \<in> set (closings dag (merge_step dag b s) bs)"
    by (auto split: if_splits)
  then show ?case
  proof cases
    case 1
    then show ?thesis by auto
  next
    case 2
    then have "set (current_barrier_nodes g)
                 \<subseteq> set (current_barrier_nodes (merge_step dag b s)) \<union> set bs"
      by (rule Cons.IH)
    moreover have "set (current_barrier_nodes (merge_step dag b s))
                 \<subseteq> set (current_barrier_nodes s) \<union> {b}"
      by (cases "can_merge dag s b") (simp_all add: merge_step_absorb merge_step_close)
    ultimately show ?thesis by auto
  qed
qed

lemma merge_groups_facts:
  assumes "g \<in> set (merge_groups dag)"
  obtains m where "group_inv g"
    and "set (current_barrier_nodes g) \<subseteq> set (barriers_of dag)"
    and "collect_potential_merges dag (barriers_of dag) = Some m" and "m \<noteq> []"
    and "map_of m (end_of_barrier g) = Some (current_qubits g)"
proof (cases "barriers_of dag")
  case Nil
  with assms show ?thesis by (simp add: merge_groups_def)
next
  case (Cons b bs)
  show ?thesis
  proof (cases bs)
    case Nil
    with Cons assms show ?thesis by (simp add: merge_groups_def)
  next
    case (Cons b' bs')
    let ?s = "start_collector dag b"
    from assms \<open>barriers_of dag = b # bs\<close> Cons have g: "g \<in> set (closings dag ?s bs)"
      by (simp add: merge_groups_def)
    have inc: "increasing (end_of_barrier ?s # bs)"
      using increasing_barriers_of [of dag] \<open>barriers_of dag = b # bs\<close>
      by (simp add: start_collector_def)
    have 1: "group_inv g"
      using group_inv_start inc g by (rule closings_inv)
    have 2: "set (current_barrier_nodes g) \<subseteq> set (barriers_of dag)"
      using closings_members [OF g] \<open>barriers_of dag = b # bs\<close>
      by (auto simp: start_collector_def)
    have 3: "collect_potential_merges dag (barriers_of dag)
               = Some (node_to_barrier_qubits (store_barrier (fold (merge_step dag) bs ?s)))"
      using \<open>barriers_of dag = b # bs\<close> Cons by (simp add: collect_potential_merges_def)
    have 4: "node_to_barrier_qubits (store_barrier (fold (merge_step dag) bs ?s)) \<noteq> []"
      by (cases "node_to_barrier_qubits (fold (merge_step dag) bs ?s)")
         (simp_all add: store_barrier_def truthy_def)
    have 5: "map_of (node_to_barrier_qubits (store_barrier (fold (merge_step dag) bs ?s)))
               (end_of_barrier g) = Some (current_qubits g)"
      using inc g by (rule map_of_closings)
    from 1 2 3 4 5 show ?thesis by (rule that)
  qed
qed

lemma barriers_of_nodes:
  assumes "b \<in> set (barriers_of dag)"
  shows "name (op b) = ''barrier''" and "node_id b < length (op_nodes dag)"
    and "nth_node dag (node_id b) = b" and "b \<in> set (topological_op_nodes dag)"
  using assms in_topological_op_nodes [of b dag]
  by (auto simp: barriers_of_def nth_node_def)

lemma group_inv_anchor_member:
  "group_inv g \<Longrightarrow> end_of_barrier g \<in> set (current_barrier_nodes g)"
  by (metis group_inv_def last_in_set)

lemma anchor_output:
  assumes "g \<in> set (merge_groups dag)"
    and "collect_potential_merges dag (barriers_of dag) = Some m"
  shows "node_output m (end_of_barrier g) =
    [\<lparr>op = Barrier (length (current_qubits g)), qargs = current_qubits g, cargs = [],
      condition = None\<rparr>]"
proof -
  from assms(1) obtain m' where inv: "group_inv g"
    and sub: "set (current_barrier_nodes g) \<subseteq> set (barriers_of dag)"
    and m': "collect_potential_merges dag (barriers_of dag) = Some m'"
    and look: "map_of m' (end_of_barrier g) = Some (current_qubits g)"
    by (rule merge_groups_facts)
  from m' assms(2) have "m' = m" by simp
  moreover have "name (op (end_of_barrier g)) = ''barrier''"
    using group_inv_anchor_member [OF inv] sub barriers_of_nodes(1) by blast
  ultimately show ?thesis
    using look by (simp add: node_output_eq)
qed

section \<open>Claims about the collector\<close>

text \<open>
  C1. One pass through the loop body with the group \<open>G\<close> and the next barrier \<open>B\<close>. If
  the qubits of \<open>G\<close> and \<open>B\<close> meet, the ancestors of \<open>G\<close> miss the descendants of \<open>B\<close> and
  the descendants of \<open>G\<close> miss the ancestors of \<open>B\<close>, where the members of the group are
  first removed from both sets of \<open>B\<close>, then \<open>B\<close> is appended to the group and nothing is
  stored. If one of the three fails, the group is stored in the dictionary under its
  anchor and a new group starts from \<open>B\<close> alone, with the sets of \<open>B\<close> itself. For a group
  that has a member, \<open>B\<close> joins it if and only if the three conditions hold.
\<close>

theorem absorbed_iff_three_conditions:
  "(set (current_qubits G) \<inter> set (qargs B) \<noteq> {}
      \<and> set (current_ancestors G)
          \<inter> (set (descendants dag B) - set (current_barrier_nodes G)) = {}
      \<and> set (current_descendants G)
          \<inter> (set (ancestors dag B) - set (current_barrier_nodes G)) = {}
    \<longrightarrow> current_barrier_nodes (merge_step dag B G) = current_barrier_nodes G @ [B]
        \<and> end_of_barrier (merge_step dag B G) = B
        \<and> node_to_barrier_qubits (merge_step dag B G) = node_to_barrier_qubits G
        \<and> set (current_qubits (merge_step dag B G)) = set (current_qubits G) \<union> set (qargs B))
   \<and> (\<not> (set (current_qubits G) \<inter> set (qargs B) \<noteq> {}
          \<and> set (current_ancestors G)
              \<inter> (set (descendants dag B) - set (current_barrier_nodes G)) = {}
          \<and> set (current_descendants G)
              \<inter> (set (ancestors dag B) - set (current_barrier_nodes G)) = {})
    \<longrightarrow> node_to_barrier_qubits (merge_step dag B G)
          = AList.update (end_of_barrier G) (current_qubits G) (node_to_barrier_qubits G)
        \<and> current_barrier_nodes (merge_step dag B G) = [B]
        \<and> end_of_barrier (merge_step dag B G) = B
        \<and> current_qubits (merge_step dag B G) = pyset (qargs B)
        \<and> current_ancestors (merge_step dag B G) = ancestors dag B
        \<and> current_descendants (merge_step dag B G) = descendants dag B)
   \<and> (current_barrier_nodes G \<noteq> []
    \<longrightarrow> (current_barrier_nodes (merge_step dag B G) = current_barrier_nodes G @ [B]
         \<longleftrightarrow> set (current_qubits G) \<inter> set (qargs B) \<noteq> {}
             \<and> set (current_ancestors G)
                 \<inter> (set (descendants dag B) - set (current_barrier_nodes G)) = {}
             \<and> set (current_descendants G)
                 \<inter> (set (ancestors dag B) - set (current_barrier_nodes G)) = {}))"
proof (cases "can_merge dag G B")
  case True
  then have eq: "merge_step dag B G =
    G\<lparr>current_ancestors := set_union (current_ancestors G) (next_ancestors dag G B),
      current_descendants := set_union (current_descendants G) (next_descendants dag G B),
      current_qubits := set_union (current_qubits G) (pyset (qargs B)),
      barrier_to_add := Barrier (length (set_union (current_qubits G) (pyset (qargs B)))),
      end_of_barrier := B,
      current_barrier_nodes := current_barrier_nodes G @ [B]\<rparr>"
    by (rule merge_step_absorb)
  from True show ?thesis
    unfolding can_merge_iff [symmetric] eq
    by (simp add: set_set_union set_pyset)
next
  case False
  then have eq: "merge_step dag B G =
    \<lparr>node_to_barrier_qubits =
       AList.update (end_of_barrier G) (current_qubits G) (node_to_barrier_qubits G),
     end_of_barrier = B,
     current_barrier_nodes = [B],
     current_qubits = pyset (qargs B),
     current_ancestors = ancestors dag B,
     current_descendants = descendants dag B,
     barrier_to_add = Barrier (length (pyset (qargs B)))\<rparr>"
    by (rule merge_step_close)
  from False show ?thesis
    unfolding can_merge_iff [symmetric] eq
    by simp
qed


theorem absorbed_iff_three_conditions_witness:
  "(set (current_qubits (start_collector two_barriers (nth_node two_barriers 0)))
       \<inter> set (qargs (nth_node two_barriers 1)) \<noteq> {}
    \<and> set (current_ancestors (start_collector two_barriers (nth_node two_barriers 0)))
       \<inter> (set (descendants two_barriers (nth_node two_barriers 1))
          - set (current_barrier_nodes (start_collector two_barriers (nth_node two_barriers 0)))) = {}
    \<and> set (current_descendants (start_collector two_barriers (nth_node two_barriers 0)))
       \<inter> (set (ancestors two_barriers (nth_node two_barriers 1))
          - set (current_barrier_nodes (start_collector two_barriers (nth_node two_barriers 0)))) = {})
   \<and> current_barrier_nodes
        (merge_step two_barriers (nth_node two_barriers 1)
           (start_collector two_barriers (nth_node two_barriers 0)))
       = current_barrier_nodes (start_collector two_barriers (nth_node two_barriers 0))
           @ [nth_node two_barriers 1]
   \<and> \<not> (set (current_qubits (start_collector barrier_gate_barrier (nth_node barrier_gate_barrier 0)))
            \<inter> set (qargs (nth_node barrier_gate_barrier 2)) \<noteq> {}
         \<and> set (current_ancestors (start_collector barrier_gate_barrier (nth_node barrier_gate_barrier 0)))
            \<inter> (set (descendants barrier_gate_barrier (nth_node barrier_gate_barrier 2))
               - set (current_barrier_nodes
                        (start_collector barrier_gate_barrier (nth_node barrier_gate_barrier 0)))) = {}
         \<and> set (current_descendants (start_collector barrier_gate_barrier (nth_node barrier_gate_barrier 0)))
            \<inter> (set (ancestors barrier_gate_barrier (nth_node barrier_gate_barrier 2))
               - set (current_barrier_nodes
                        (start_collector barrier_gate_barrier (nth_node barrier_gate_barrier 0)))) = {})
   \<and> current_barrier_nodes
        (merge_step barrier_gate_barrier (nth_node barrier_gate_barrier 2)
           (start_collector barrier_gate_barrier (nth_node barrier_gate_barrier 0)))
       = [nth_node barrier_gate_barrier 2]"
proof -
  let ?G1 = "start_collector two_barriers (nth_node two_barriers 0)"
  let ?B1 = "nth_node two_barriers 1"
  let ?G2 = "start_collector barrier_gate_barrier (nth_node barrier_gate_barrier 0)"
  let ?B2 = "nth_node barrier_gate_barrier 2"
  have h1: "set (current_qubits ?G1) \<inter> set (qargs ?B1) \<noteq> {}
    \<and> set (current_ancestors ?G1)
       \<inter> (set (descendants two_barriers ?B1) - set (current_barrier_nodes ?G1)) = {}
    \<and> set (current_descendants ?G1)
       \<inter> (set (ancestors two_barriers ?B1) - set (current_barrier_nodes ?G1)) = {}"
    by code_simp
  have h2: "\<not> (set (current_qubits ?G2) \<inter> set (qargs ?B2) \<noteq> {}
    \<and> set (current_ancestors ?G2)
       \<inter> (set (descendants barrier_gate_barrier ?B2) - set (current_barrier_nodes ?G2)) = {}
    \<and> set (current_descendants ?G2)
       \<inter> (set (ancestors barrier_gate_barrier ?B2) - set (current_barrier_nodes ?G2)) = {})"
    by code_simp
  note t1 = absorbed_iff_three_conditions [where G = ?G1 and B = ?B1 and dag = two_barriers]
  note t2 = absorbed_iff_three_conditions [where G = ?G2 and B = ?B2 and dag = barrier_gate_barrier]
  from t1 h1 have c1: "current_barrier_nodes (merge_step two_barriers ?B1 ?G1)
      = current_barrier_nodes ?G1 @ [?B1]"
    by blast
  from t2 h2 have c2: "current_barrier_nodes (merge_step barrier_gate_barrier ?B2 ?G2) = [?B2]"
    by blast
  from h1 c1 h2 c2 show ?thesis by blast
qed

text \<open>
  C2, as the claim states it, fails: after the second barrier of
  \<^verbatim>\<open>barrier(q0); barrier(q0)\<close> is absorbed, it is a member of the group and still an
  element of the group's descendant set, which came from the first barrier and is not
  pruned again.
\<close>

theorem two_barriers_descendants_keep_member:
  "can_merge two_barriers (start_collector two_barriers (nth_node two_barriers 0))
     (nth_node two_barriers 1)
   \<and> nth_node two_barriers 1
       \<in> set (current_barrier_nodes
                (merge_step two_barriers (nth_node two_barriers 1)
                   (start_collector two_barriers (nth_node two_barriers 0))))
   \<and> nth_node two_barriers 1
       \<in> set (current_descendants
                (merge_step two_barriers (nth_node two_barriers 1)
                   (start_collector two_barriers (nth_node two_barriers 0))))
   \<and> set (current_descendants
             (merge_step two_barriers (nth_node two_barriers 1)
                (start_collector two_barriers (nth_node two_barriers 0))))
       \<inter> set (current_barrier_nodes
                 (merge_step two_barriers (nth_node two_barriers 1)
                    (start_collector two_barriers (nth_node two_barriers 0)))) \<noteq> {}"
  by code_simp

text \<open>
  C2, amended. When \<open>B\<close> is absorbed, the sets of \<open>B\<close> are reduced by the members the
  group had before \<open>B\<close> and then united with the sets of the group, which are not pruned
  themselves. After any number of passes over the barriers of a graph, no member of
  the current group is in its ancestor set.
\<close>

theorem absorption_prunes_incoming_sets_only:
  assumes "barriers_of dag = b0 # rest"
  shows "set (current_ancestors (fold (merge_step dag) (take k rest) (start_collector dag b0)))
           \<inter> set (current_barrier_nodes
                     (fold (merge_step dag) (take k rest) (start_collector dag b0))) = {}
         \<and> (can_merge dag G B \<longrightarrow>
              set (current_ancestors (merge_step dag B G))
                = set (current_ancestors G)
                  \<union> (set (ancestors dag B) - set (current_barrier_nodes G))
              \<and> set (current_descendants (merge_step dag B G))
                = set (current_descendants G)
                  \<union> (set (descendants dag B) - set (current_barrier_nodes G))
              \<and> current_barrier_nodes (merge_step dag B G) = current_barrier_nodes G @ [B])"
proof -
  have "group_inv (fold (merge_step dag) (take k rest) (start_collector dag b0))"
    using assms by (rule group_inv_prefix)
  then have 1: "set (current_ancestors (fold (merge_step dag) (take k rest) (start_collector dag b0)))
           \<inter> set (current_barrier_nodes
                     (fold (merge_step dag) (take k rest) (start_collector dag b0))) = {}"
    by (simp add: group_inv_def)
  have 2: "can_merge dag G B \<longrightarrow>
              set (current_ancestors (merge_step dag B G))
                = set (current_ancestors G)
                  \<union> (set (ancestors dag B) - set (current_barrier_nodes G))
              \<and> set (current_descendants (merge_step dag B G))
                = set (current_descendants G)
                  \<union> (set (descendants dag B) - set (current_barrier_nodes G))
              \<and> current_barrier_nodes (merge_step dag B G) = current_barrier_nodes G @ [B]"
    by (auto simp: merge_step_absorb set_set_union next_ancestors_def next_descendants_def)
  from 1 2 show ?thesis by (rule conjI)
qed

theorem absorption_prunes_incoming_sets_only_witness:
  "barriers_of two_barriers = nth_node two_barriers 0 # [nth_node two_barriers 1]
   \<and> can_merge two_barriers (start_collector two_barriers (nth_node two_barriers 0))
        (nth_node two_barriers 1)
   \<and> set (current_ancestors
             (fold (merge_step two_barriers) (take 1 [nth_node two_barriers 1])
                (start_collector two_barriers (nth_node two_barriers 0))))
       \<inter> set (current_barrier_nodes
                 (fold (merge_step two_barriers) (take 1 [nth_node two_barriers 1])
                    (start_collector two_barriers (nth_node two_barriers 0)))) = {}
   \<and> set (current_descendants
             (merge_step two_barriers (nth_node two_barriers 1)
                (start_collector two_barriers (nth_node two_barriers 0))))
       = set (current_descendants (start_collector two_barriers (nth_node two_barriers 0)))
         \<union> (set (descendants two_barriers (nth_node two_barriers 1))
            - set (current_barrier_nodes (start_collector two_barriers (nth_node two_barriers 0))))"
proof -
  have h1: "barriers_of two_barriers = nth_node two_barriers 0 # [nth_node two_barriers 1]"
    by code_simp
  have h2: "can_merge two_barriers (start_collector two_barriers (nth_node two_barriers 0))
        (nth_node two_barriers 1)"
    by code_simp
  note t = absorption_prunes_incoming_sets_only
    [OF h1, where k = 1 and G = "start_collector two_barriers (nth_node two_barriers 0)"
       and B = "nth_node two_barriers 1"]
  from t h1 h2 show ?thesis by blast
qed

text \<open>
  C4. For every group the collector closes on the barriers of a graph: its anchor is the
  last of its members; every member is a barrier of the graph, stands in the topological
  walk at the position of its handle, and that position is not after the anchor's; the
  dictionary maps the anchor to the qubits of the group; the operations of the result are
  what the nodes of the walk contribute, in the order of the walk, and the node at the
  anchor's position contributes the one collapsed barrier.
\<close>

theorem anchor_is_last_member:
  assumes "g \<in> set (merge_groups dag)"
  shows "current_barrier_nodes g \<noteq> []
         \<and> end_of_barrier g = last (current_barrier_nodes g)
         \<and> (\<forall>b \<in> set (current_barrier_nodes g).
               b \<in> set (barriers_of dag)
               \<and> nth_node dag (node_id b) = b
               \<and> node_id b \<le> node_id (end_of_barrier g))
         \<and> (\<exists>m. collect_potential_merges dag (barriers_of dag) = Some m
                \<and> map_of m (end_of_barrier g) = Some (current_qubits g)
                \<and> op_nodes (transform dag)
                    = concat (map (node_output m) (topological_op_nodes dag))
                \<and> node_output m (nth_node dag (node_id (end_of_barrier g)))
                    = [\<lparr>op = Barrier (length (current_qubits g)), qargs = current_qubits g,
                        cargs = [], condition = None\<rparr>])"
proof -
  from assms obtain m where inv: "group_inv g"
    and sub: "set (current_barrier_nodes g) \<subseteq> set (barriers_of dag)"
    and m: "collect_potential_merges dag (barriers_of dag) = Some m" and ne: "m \<noteq> []"
    and look: "map_of m (end_of_barrier g) = Some (current_qubits g)"
    by (rule merge_groups_facts)
  have 1: "current_barrier_nodes g \<noteq> []" and 2: "end_of_barrier g = last (current_barrier_nodes g)"
    using inv by (simp_all add: group_inv_def)
  have 3: "\<forall>b \<in> set (current_barrier_nodes g).
               b \<in> set (barriers_of dag)
               \<and> nth_node dag (node_id b) = b
               \<and> node_id b \<le> node_id (end_of_barrier g)"
    using sub barriers_of_nodes(3) group_inv_members_le [OF inv] by blast
  have anchor: "nth_node dag (node_id (end_of_barrier g)) = end_of_barrier g"
    using group_inv_anchor_member [OF inv] sub barriers_of_nodes(3) by blast
  have out: "node_output m (end_of_barrier g) =
    [\<lparr>op = Barrier (length (current_qubits g)), qargs = current_qubits g, cargs = [],
      condition = None\<rparr>]"
    using assms m by (rule anchor_output)
  have tr: "op_nodes (transform dag) = concat (map (node_output m) (topological_op_nodes dag))"
    using m ne by (simp add: transform_new)
  from m look tr out anchor
  have 4: "\<exists>m. collect_potential_merges dag (barriers_of dag) = Some m
                \<and> map_of m (end_of_barrier g) = Some (current_qubits g)
                \<and> op_nodes (transform dag)
                    = concat (map (node_output m) (topological_op_nodes dag))
                \<and> node_output m (nth_node dag (node_id (end_of_barrier g)))
                    = [\<lparr>op = Barrier (length (current_qubits g)), qargs = current_qubits g,
                        cargs = [], condition = None\<rparr>]"
    by simp
  from 1 2 3 4 show ?thesis by blast
qed

theorem anchor_is_last_member_witness:
  "docstring_group \<in> set (merge_groups docstring_circuit)
   \<and> nth_node docstring_circuit 1 \<in> set (current_barrier_nodes docstring_group)
   \<and> end_of_barrier docstring_group = last (current_barrier_nodes docstring_group)
   \<and> nth_node docstring_circuit 1 \<in> set (barriers_of docstring_circuit)
   \<and> node_id (nth_node docstring_circuit 1) \<le> node_id (end_of_barrier docstring_group)
   \<and> (\<exists>m. collect_potential_merges docstring_circuit (barriers_of docstring_circuit) = Some m
          \<and> map_of m (end_of_barrier docstring_group) = Some (current_qubits docstring_group)
          \<and> op_nodes (transform docstring_circuit)
              = concat (map (node_output m) (topological_op_nodes docstring_circuit))
          \<and> node_output m (nth_node docstring_circuit (node_id (end_of_barrier docstring_group)))
              = [\<lparr>op = Barrier (length (current_qubits docstring_group)),
                  qargs = current_qubits docstring_group, cargs = [], condition = None\<rparr>])"
proof -
  have h: "docstring_group \<in> set (merge_groups docstring_circuit)"
  proof -
    have "1 < length (merge_groups docstring_circuit)" by code_simp
    then show ?thesis unfolding docstring_group_def by (rule nth_mem)
  qed
  have hb: "nth_node docstring_circuit 1 \<in> set (current_barrier_nodes docstring_group)"
    by code_simp
  note t = anchor_is_last_member [OF h]
  from t have 1: "end_of_barrier docstring_group = last (current_barrier_nodes docstring_group)"
    by blast
  from t hb have 2: "nth_node docstring_circuit 1 \<in> set (barriers_of docstring_circuit)"
    and 3: "node_id (nth_node docstring_circuit 1) \<le> node_id (end_of_barrier docstring_group)"
    by blast+
  from t have 4: "\<exists>m. collect_potential_merges docstring_circuit (barriers_of docstring_circuit) = Some m
          \<and> map_of m (end_of_barrier docstring_group) = Some (current_qubits docstring_group)
          \<and> op_nodes (transform docstring_circuit)
              = concat (map (node_output m) (topological_op_nodes docstring_circuit))
          \<and> node_output m (nth_node docstring_circuit (node_id (end_of_barrier docstring_group)))
              = [\<lparr>op = Barrier (length (current_qubits docstring_group)),
                  qargs = current_qubits docstring_group, cargs = [], condition = None\<rparr>]"
    by (elim conjE)
  from h hb 1 2 3 4 show ?thesis by (intro conjI)
qed

text \<open>
  C5. For every group the collector closes on the barriers of a graph, the rewriter emits
  at the anchor one barrier, which is an operation of the result; its qubit operands are,
  without repetition, exactly the qubits of the members of the group, and the width of its
  instruction is the number of these qubits.
\<close>

theorem collapsed_barrier_covers_union:
  assumes "g \<in> set (merge_groups dag)"
  shows "\<exists>m x. collect_potential_merges dag (barriers_of dag) = Some m
           \<and> node_output m (end_of_barrier g) = [x]
           \<and> x \<in> set (op_nodes (transform dag))
           \<and> name (op x) = ''barrier''
           \<and> set (qargs x) = (\<Union>b \<in> set (current_barrier_nodes g). set (qargs b))
           \<and> distinct (qargs x)
           \<and> num_qubits (op x) = card (\<Union>b \<in> set (current_barrier_nodes g). set (qargs b))"
proof -
  from assms obtain m where inv: "group_inv g"
    and sub: "set (current_barrier_nodes g) \<subseteq> set (barriers_of dag)"
    and m: "collect_potential_merges dag (barriers_of dag) = Some m" and ne: "m \<noteq> []"
    by (rule merge_groups_facts)
  let ?x = "\<lparr>op = Barrier (length (current_qubits g)), qargs = current_qubits g, cargs = [],
      condition = None\<rparr>"
  have out: "node_output m (end_of_barrier g) = [?x]"
    using assms m by (rule anchor_output)
  have "end_of_barrier g \<in> set (topological_op_nodes dag)"
    using group_inv_anchor_member [OF inv] sub barriers_of_nodes(4) by blast
  then have "?x \<in> set (concat (map (node_output m) (topological_op_nodes dag)))"
    using out by force
  then have mem: "?x \<in> set (op_nodes (transform dag))"
    using m ne by (simp add: transform_new)
  have qs: "set (current_qubits g) = (\<Union>b \<in> set (current_barrier_nodes g). set (qargs b))"
    and dist: "distinct (current_qubits g)"
    using inv by (simp_all add: group_inv_def)
  have card: "length (current_qubits g) = card (\<Union>b \<in> set (current_barrier_nodes g). set (qargs b))"
    using dist qs by (metis distinct_card)
  from m out mem qs dist card show ?thesis
    by (intro exI [of _ m] exI [of _ ?x]) (simp add: Barrier_def)
qed

theorem collapsed_barrier_covers_union_witness:
  "docstring_group \<in> set (merge_groups docstring_circuit)
   \<and> (\<exists>m x. collect_potential_merges docstring_circuit (barriers_of docstring_circuit) = Some m
         \<and> node_output m (end_of_barrier docstring_group) = [x]
         \<and> x \<in> set (op_nodes (transform docstring_circuit))
         \<and> name (op x) = ''barrier''
         \<and> set (qargs x) = (\<Union>b \<in> set (current_barrier_nodes docstring_group). set (qargs b))
         \<and> distinct (qargs x)
         \<and> num_qubits (op x)
             = card (\<Union>b \<in> set (current_barrier_nodes docstring_group). set (qargs b)))
   \<and> map qargs (current_barrier_nodes docstring_group)
       = [[(''q'', 1)], [(''q'', 0), (''q'', 1), (''q'', 2)]]"
proof -
  have h: "docstring_group \<in> set (merge_groups docstring_circuit)"
  proof -
    have "1 < length (merge_groups docstring_circuit)" by code_simp
    then show ?thesis unfolding docstring_group_def by (rule nth_mem)
  qed
  have members: "map qargs (current_barrier_nodes docstring_group)
       = [[(''q'', 1)], [(''q'', 0), (''q'', 1), (''q'', 2)]]"
    by code_simp
  from collapsed_barrier_covers_union [OF h] members
  have "(\<exists>m x. collect_potential_merges docstring_circuit (barriers_of docstring_circuit) = Some m
         \<and> node_output m (end_of_barrier docstring_group) = [x]
         \<and> x \<in> set (op_nodes (transform docstring_circuit))
         \<and> name (op x) = ''barrier''
         \<and> set (qargs x) = (\<Union>b \<in> set (current_barrier_nodes docstring_group). set (qargs b))
         \<and> distinct (qargs x)
         \<and> num_qubits (op x)
             = card (\<Union>b \<in> set (current_barrier_nodes docstring_group). set (qargs b)))
   \<and> map qargs (current_barrier_nodes docstring_group)
       = [[(''q'', 1)], [(''q'', 0), (''q'', 1), (''q'', 2)]]"
    by (rule conjI)
  with h show ?thesis by (rule conjI)
qed

section \<open>Claims about the pass\<close>

text \<open>
  C3. For every store and every graph in it, the graph that \<^verbatim>\<open>run\<close> returns has the
  operations of the input that are not barriers, in the same order and each with the same
  instruction, the same qubit and classical operand lists and the same condition, and it
  has the quantum and classical registers of the input.
\<close>

theorem run_preserves_non_barriers:
  assumes "dag < length h"
  shows "filter (\<lambda>x. name (op x) \<noteq> ''barrier'') (op_nodes (snd (run dag h) ! fst (run dag h)))
           = filter (\<lambda>x. name (op x) \<noteq> ''barrier'') (op_nodes (h ! dag))
         \<and> qregs (snd (run dag h) ! fst (run dag h)) = qregs (h ! dag)
         \<and> cregs (snd (run dag h) ! fst (run dag h)) = cregs (h ! dag)"
proof (cases "h ! dag" rule: collect_cases)
  case none
  then have "run dag h = (dag, h)" by (simp add: run_same)
  then show ?thesis by simp
next
  case (some m)
  from some(2,3) assms have "run dag h =
    (length h,
     h @ [\<lparr>qregs = qregs (h ! dag), cregs = cregs (h ! dag),
           op_nodes = concat (map (node_output m) (topological_op_nodes (h ! dag)))\<rparr>])"
    by (rule run_new)
  then show ?thesis
    using non_barriers_rewritten [of m "h ! dag"] by (simp add: is_barrier_def)
qed

theorem run_preserves_non_barriers_witness:
  "0 < length [barrier_other_gate_barrier]
   \<and> (filter (\<lambda>x. name (op x) \<noteq> ''barrier'')
         (op_nodes (snd (run 0 [barrier_other_gate_barrier])
                      ! fst (run 0 [barrier_other_gate_barrier])))
       = filter (\<lambda>x. name (op x) \<noteq> ''barrier'') (op_nodes ([barrier_other_gate_barrier] ! 0))
      \<and> qregs (snd (run 0 [barrier_other_gate_barrier]) ! fst (run 0 [barrier_other_gate_barrier]))
          = qregs ([barrier_other_gate_barrier] ! 0)
      \<and> cregs (snd (run 0 [barrier_other_gate_barrier]) ! fst (run 0 [barrier_other_gate_barrier]))
          = cregs ([barrier_other_gate_barrier] ! 0))"
proof -
  have h: "0 < length [barrier_other_gate_barrier]" by simp
  from h run_preserves_non_barriers [OF h] show ?thesis by (rule conjI)
qed

text \<open>
  C6, as the claim states it, fails: for a graph with one barrier the collector does not
  return an empty dictionary, it returns \<^verbatim>\<open>None\<close>.
\<close>

theorem one_barrier_no_mapping:
  "length (barriers_of one_barrier) < 2
   \<and> collect_potential_merges one_barrier (barriers_of one_barrier) \<noteq> Some []"
  by code_simp

text \<open>
  C6, amended. For a graph with fewer than two barriers the collector returns \<^verbatim>\<open>None\<close>,
  and \<^verbatim>\<open>run\<close> returns the address of the input graph and leaves the store as it was: no
  graph is created and none is changed.
\<close>

theorem fewer_than_two_barriers_returns_input:
  assumes "length (barriers_of (h ! dag)) < 2"
  shows "collect_potential_merges (h ! dag) (barriers_of (h ! dag)) = None
         \<and> run dag h = (dag, h)"
proof (cases "h ! dag" rule: collect_cases)
  case none
  then show ?thesis by (simp add: run_same)
next
  case (some m)
  with assms show ?thesis by simp
qed

theorem fewer_than_two_barriers_returns_input_witness:
  "length (barriers_of ([one_barrier] ! 0)) < 2
   \<and> (collect_potential_merges ([one_barrier] ! 0) (barriers_of ([one_barrier] ! 0)) = None
      \<and> run 0 [one_barrier] = (0, [one_barrier]))"
proof -
  have h: "length (barriers_of ([one_barrier] ! 0)) < 2" by code_simp
  from h fewer_than_two_barriers_returns_input [OF h] show ?thesis by (rule conjI)
qed

text \<open>
  C9. \<^verbatim>\<open>run\<close> changes no graph that was in the store before the call, the input graph
  among them. It returns either the input's address with the store untouched, exactly
  when the collector gave \<^verbatim>\<open>None\<close> or an empty dictionary, or the address of one newly
  created graph. The graph returned depends on the input graph alone, not on the rest of
  the store or on the address.
\<close>

theorem run_leaves_input_unchanged:
  assumes "dag < length h"
  shows "take (length h) (snd (run dag h)) = h
         \<and> snd (run dag h) ! dag = h ! dag
         \<and> (run dag h = (dag, h)
            \<or> fst (run dag h) = length h \<and> length (snd (run dag h)) = Suc (length h))
         \<and> (run dag h = (dag, h)
            \<longleftrightarrow> collect_potential_merges (h ! dag) (barriers_of (h ! dag)) = None
                \<or> collect_potential_merges (h ! dag) (barriers_of (h ! dag)) = Some [])
         \<and> snd (run dag h) ! fst (run dag h) = transform (h ! dag)"
proof (cases "h ! dag" rule: collect_cases)
  case none
  then have "run dag h = (dag, h)" by (simp add: run_same)
  with none(2) show ?thesis by (simp add: transform_same)
next
  case (some m)
  from some(2,3) assms have "run dag h =
    (length h,
     h @ [\<lparr>qregs = qregs (h ! dag), cregs = cregs (h ! dag),
           op_nodes = concat (map (node_output m) (topological_op_nodes (h ! dag)))\<rparr>])"
    by (rule run_new)
  with some(2,3) assms show ?thesis
    by (simp add: transform_new nth_append)
qed

theorem run_leaves_input_unchanged_witness:
  "0 < length [docstring_circuit]
   \<and> (take (length [docstring_circuit]) (snd (run 0 [docstring_circuit])) = [docstring_circuit]
      \<and> snd (run 0 [docstring_circuit]) ! 0 = [docstring_circuit] ! 0
      \<and> (run 0 [docstring_circuit] = (0, [docstring_circuit])
         \<or> fst (run 0 [docstring_circuit]) = length [docstring_circuit]
           \<and> length (snd (run 0 [docstring_circuit])) = Suc (length [docstring_circuit]))
      \<and> (run 0 [docstring_circuit] = (0, [docstring_circuit])
         \<longleftrightarrow> collect_potential_merges ([docstring_circuit] ! 0)
               (barriers_of ([docstring_circuit] ! 0)) = None
             \<or> collect_potential_merges ([docstring_circuit] ! 0)
                 (barriers_of ([docstring_circuit] ! 0)) = Some [])
      \<and> snd (run 0 [docstring_circuit]) ! fst (run 0 [docstring_circuit])
          = transform ([docstring_circuit] ! 0))"
proof -
  have h: "0 < length [docstring_circuit]" by simp
  from h run_leaves_input_unchanged [OF h] show ?thesis by (rule conjI)
qed

text \<open>
  C10. For a graph with two or more barriers the collector returns a dictionary that is
  not empty and has the last barrier among its keys, and \<^verbatim>\<open>run\<close> returns the address of a newly created graph, never the address
  of the input; on \<^verbatim>\<open>barrier(q0); h(q0); barrier(q0)\<close> the new graph equals the input.
\<close>

theorem two_or_more_barriers_fresh_graph:
  assumes "dag < length h" and "2 \<le> length (barriers_of (h ! dag))"
  shows "(\<exists>m. collect_potential_merges (h ! dag) (barriers_of (h ! dag)) = Some m \<and> m \<noteq> []
            \<and> map_of m (last (barriers_of (h ! dag))) \<noteq> None)
         \<and> fst (run dag h) = length h
         \<and> fst (run dag h) \<noteq> dag
         \<and> length (snd (run dag h)) = Suc (length h)"
proof (cases "h ! dag" rule: collect_cases)
  case none
  with assms(2) show ?thesis by simp
next
  case (some m)
  from some(2,3) assms(1) have "run dag h =
    (length h,
     h @ [\<lparr>qregs = qregs (h ! dag), cregs = cregs (h ! dag),
           op_nodes = concat (map (node_output m) (topological_op_nodes (h ! dag)))\<rparr>])"
    by (rule run_new)
  moreover have "map_of m (last (barriers_of (h ! dag))) \<noteq> None"
    using assms(2) some(2) by (rule last_barrier_is_key)
  ultimately show ?thesis using some(2,3) assms(1) by simp
qed

theorem two_or_more_barriers_fresh_graph_witness:
  "(0 < length [barrier_gate_barrier]
    \<and> 2 \<le> length (barriers_of ([barrier_gate_barrier] ! 0)))
   \<and> ((\<exists>m. collect_potential_merges ([barrier_gate_barrier] ! 0)
              (barriers_of ([barrier_gate_barrier] ! 0)) = Some m \<and> m \<noteq> []
            \<and> map_of m (last (barriers_of ([barrier_gate_barrier] ! 0))) \<noteq> None)
      \<and> fst (run 0 [barrier_gate_barrier]) = length [barrier_gate_barrier]
      \<and> fst (run 0 [barrier_gate_barrier]) \<noteq> 0
      \<and> length (snd (run 0 [barrier_gate_barrier])) = Suc (length [barrier_gate_barrier]))
   \<and> snd (run 0 [barrier_gate_barrier]) ! fst (run 0 [barrier_gate_barrier])
       = barrier_gate_barrier"
proof -
  have h1: "0 < length [barrier_gate_barrier]" by simp
  have h2: "2 \<le> length (barriers_of ([barrier_gate_barrier] ! 0))" by code_simp
  have same: "snd (run 0 [barrier_gate_barrier]) ! fst (run 0 [barrier_gate_barrier])
       = barrier_gate_barrier"
    by code_simp
  from h1 h2 have h: "0 < length [barrier_gate_barrier]
    \<and> 2 \<le> length (barriers_of ([barrier_gate_barrier] ! 0))"
    by (rule conjI)
  from two_or_more_barriers_fresh_graph [OF h1 h2] same
  have "((\<exists>m. collect_potential_merges ([barrier_gate_barrier] ! 0)
              (barriers_of ([barrier_gate_barrier] ! 0)) = Some m \<and> m \<noteq> []
            \<and> map_of m (last (barriers_of ([barrier_gate_barrier] ! 0))) \<noteq> None)
      \<and> fst (run 0 [barrier_gate_barrier]) = length [barrier_gate_barrier]
      \<and> fst (run 0 [barrier_gate_barrier]) \<noteq> 0
      \<and> length (snd (run 0 [barrier_gate_barrier])) = Suc (length [barrier_gate_barrier]))
   \<and> snd (run 0 [barrier_gate_barrier]) ! fst (run 0 [barrier_gate_barrier])
       = barrier_gate_barrier"
    by (rule conjI)
  with h show ?thesis by (rule conjI)
qed

section \<open>Claims settled on concrete circuits\<close>

text \<open>
  C7. On \<^verbatim>\<open>barrier(q0); h(q0); barrier(q0)\<close> the two barriers are not merged: the gate is a
  descendant of the first barrier and an ancestor of the second, so the descendants of the
  group meet the ancestors of the second barrier and the test of the loop fails. The
  collector closes two groups of one barrier each, and the graph returned has the same
  registers and the same three operations as the input, both barriers unchanged.
\<close>

theorem barrier_gate_barrier_not_merged:
  "topological_op_nodes barrier_gate_barrier ! 1
     \<in> set (descendants barrier_gate_barrier (topological_op_nodes barrier_gate_barrier ! 0))
   \<and> topological_op_nodes barrier_gate_barrier ! 1
     \<in> set (ancestors barrier_gate_barrier (topological_op_nodes barrier_gate_barrier ! 2))
   \<and> \<not> isdisjoint
         (current_descendants
            (start_collector barrier_gate_barrier (topological_op_nodes barrier_gate_barrier ! 0)))
         (next_ancestors barrier_gate_barrier
            (start_collector barrier_gate_barrier (topological_op_nodes barrier_gate_barrier ! 0))
            (topological_op_nodes barrier_gate_barrier ! 2))
   \<and> \<not> can_merge barrier_gate_barrier
         (start_collector barrier_gate_barrier (topological_op_nodes barrier_gate_barrier ! 0))
         (topological_op_nodes barrier_gate_barrier ! 2)
   \<and> map current_barrier_nodes (merge_groups barrier_gate_barrier)
       = [[topological_op_nodes barrier_gate_barrier ! 0],
          [topological_op_nodes barrier_gate_barrier ! 2]]
   \<and> run 0 [barrier_gate_barrier] = (1, [barrier_gate_barrier, barrier_gate_barrier])
   \<and> transform barrier_gate_barrier = barrier_gate_barrier"
  by code_simp

text \<open>
  C8. The pass is not idempotent: on the circuit of the module's docstring,
  \<^verbatim>\<open>barrier(q0); barrier(q1); barrier(q0, q1, q2)\<close>, one call leaves two barriers (on \<open>q0\<close> and
  on all three qubits) and a second call on that result merges them into one, so the second
  result differs from the first. The operands of each barrier are stated as sets, since the
  order in which a set of qubits is listed is left open.
\<close>

theorem docstring_circuit_not_fixed_point:
  "transform (transform docstring_circuit) \<noteq> transform docstring_circuit
   \<and> length (op_nodes docstring_circuit) = 3
   \<and> length (op_nodes (transform docstring_circuit)) = 2
   \<and> length (op_nodes (transform (transform docstring_circuit))) = 1
   \<and> map (\<lambda>x. set (qargs x)) (op_nodes (transform docstring_circuit))
       = [{(''q'', 0)}, {(''q'', 0), (''q'', 1), (''q'', 2)}]
   \<and> map (\<lambda>x. set (qargs x)) (op_nodes (transform (transform docstring_circuit)))
       = [{(''q'', 0), (''q'', 1), (''q'', 2)}]"
  by code_simp

end
